theory Spec2Isabelle
  imports Complex_Main "HOL-Library.Multiset" "HOL-Library.List_Lexorder" "HOL-Library.Char_ord"
begin

section \<open>JavaScript objects used as dictionaries\<close>

text \<open>
  \<^verbatim>\<open>Record<string, V>\<close> is a plain JavaScript object. Its own keys are distinct and
  \<^verbatim>\<open>Object.values\<close> enumerates them in a fixed order: keys that are canonical array indices
  first, in ascending numeric order, then every other string key in the order of creation.
  The object is modelled as an association list held in exactly that order.
\<close>

type_synonym 'v obj = "(string \<times> 'v) list"

definition index_val :: "string \<Rightarrow> nat" where
  "index_val s = foldl (\<lambda>a c. 10 * a + (of_char c - 48)) 0 s"

definition is_array_index :: "string \<Rightarrow> bool" where
  "is_array_index s \<longleftrightarrow>
     s \<noteq> [] \<and> list_all (\<lambda>c. c \<in> set ''0123456789'') s \<and>
     (s = ''0'' \<or> hd s \<noteq> CHR ''0'') \<and> index_val s < 4294967295"

definition obj_get :: "'v obj \<Rightarrow> string \<Rightarrow> 'v option" where
  "obj_get ob k = map_of ob k"

definition object_values :: "'v obj \<Rightarrow> 'v list" where
  "object_values ob = map snd ob"

definition object_keys :: "'v obj \<Rightarrow> string list" where
  "object_keys ob = map fst ob"

text \<open>Creating a key that the object does not have yet.\<close>

fun obj_place :: "string \<Rightarrow> 'v \<Rightarrow> 'v obj \<Rightarrow> 'v obj" where
  "obj_place k v [] = [(k, v)]"
| "obj_place k v ((k', v') # rest) =
     (if is_array_index k \<and> (\<not> is_array_index k' \<or> index_val k < index_val k')
      then (k, v) # (k', v') # rest
      else (k', v') # obj_place k v rest)"

text \<open>\<^verbatim>\<open>{ ...prev, [k]: v }\<close>: an existing key keeps its place, a new one is created.\<close>

definition obj_set :: "string \<Rightarrow> 'v \<Rightarrow> 'v obj \<Rightarrow> 'v obj" where
  "obj_set k v ob =
     (if k \<in> set (object_keys ob)
      then map (\<lambda>(k', v'). if k' = k then (k', v) else (k', v')) ob
      else obj_place k v ob)"

text \<open>\<^verbatim>\<open>delete ob[k]\<close>\<close>

definition obj_delete :: "string \<Rightarrow> 'v obj \<Rightarrow> 'v obj" where
  "obj_delete k ob = filter (\<lambda>(k', v'). k' \<noteq> k) ob"

section \<open>Data model (types.ts)\<close>

text \<open>
  A stored node is \<^verbatim>\<open>{id, parentId, text}\<close> with \<^verbatim>\<open>parentId: string | null\<close>. One more
  shape can reach the store: \<^verbatim>\<open>updateNodeText\<close> on a key that is absent spreads
  \<^verbatim>\<open>undefined\<close> and stores the object \<^verbatim>\<open>{text}\<close>, whose \<^verbatim>\<open>id\<close> and \<^verbatim>\<open>parentId\<close> are both
  \<^verbatim>\<open>undefined\<close>. That object is \<open>TextOnly\<close>.
\<close>

datatype NodeData = Node string "string option" string | TextOnly string

datatype jsref = Undefined | Null | Str string

fun id_of :: "NodeData \<Rightarrow> jsref" where
  "id_of (Node i p t) = Str i"
| "id_of (TextOnly t) = Undefined"

fun parentId_of :: "NodeData \<Rightarrow> jsref" where
  "parentId_of (Node i None t) = Null"
| "parentId_of (Node i (Some p) t) = Str p"
| "parentId_of (TextOnly t) = Undefined"

fun text_of :: "NodeData \<Rightarrow> string" where
  "text_of (Node i p t) = t"
| "text_of (TextOnly t) = t"


text \<open>
  \<^verbatim>\<open>Object.values(nodes).filter(n => n.parentId === id).map(n => n.id)\<close>. The test
  \<^verbatim>\<open>n.parentId === id\<close> against a string only passes full nodes, whose id is a string.
\<close>

fun child_id :: "string \<Rightarrow> NodeData \<Rightarrow> string option" where
  "child_id pid (Node i p t) = (if p = Some pid then Some i else None)"
| "child_id pid (TextOnly t) = None"

definition childrenIds :: "NodeData obj \<Rightarrow> string \<Rightarrow> string list" where
  "childrenIds ns pid = List.map_filter (child_id pid) (object_values ns)"

text \<open>Numbers are modelled as exact rationals; the rounding of IEEE doubles is not modelled.\<close>

record Dim =
  width :: rat
  height :: rat

record LayoutNode =
  ln_id :: string
  ln_x :: rat
  ln_y :: rat
  ln_data :: "NodeData option"
  ln_width :: rat
  ln_height :: rat
  ln_depth :: nat

record Point =
  px :: rat
  py :: rat

record Link =
  source :: Point
  target :: Point

section \<open>Layout (utils/treeLayout.ts)\<close>

definition H_GAP :: rat where "H_GAP = 100"
definition V_GAP :: rat where "V_GAP = 20"

record TreeContext =
  dimensions :: "Dim obj"
  nodes :: "NodeData obj"

datatype CalculatedNode =
  CalculatedNode (cn_id: string) (cn_x: rat) (cn_y: rat) (cn_data: "NodeData option")
    (cn_width: rat) (cn_height: rat) (cn_depth: nat)
    (children: "CalculatedNode list") (subtreeHeight: rat) (childrenHeight: rat)

text \<open>
  \<open>measureNode\<close> recurses through the parent pointers of the store and does not return on a
  store with a cycle below the start node. The first argument bounds the recursion depth;
  \<open>None\<close> means that the bound was reached.
\<close>

fun measureNode :: "nat \<Rightarrow> string \<Rightarrow> nat \<Rightarrow> TreeContext \<Rightarrow> CalculatedNode option" where
  "measureNode 0 ident depth ctx = None"
| "measureNode (Suc fuel) ident depth ctx =
     (let nodeData = obj_get (nodes ctx) ident;
          dim = (case obj_get (dimensions ctx) ident of
                   Some d \<Rightarrow> d
                 | None \<Rightarrow> \<lparr>width = 200, height = 50\<rparr>);
          cids = childrenIds (nodes ctx) ident
      in if length cids = 0
         then Some (CalculatedNode ident 0 0 nodeData (width dim) (height dim) depth
                      [] (height dim) 0)
         else (case those (map (\<lambda>childId. measureNode fuel childId (depth + 1) ctx) cids) of
                 None \<Rightarrow> None
               | Some chn \<Rightarrow>
                   let totalChildrenHeight = foldl (\<lambda>sum child. sum + subtreeHeight child) 0 chn;
                       totalGap = max 0 (of_nat (length chn) - 1) * V_GAP;
                       cH = totalChildrenHeight + totalGap
                   in Some (CalculatedNode ident 0 0 nodeData (width dim) (height dim) depth
                              chn (max (height dim) cH) cH)))"

text \<open>
  \<open>layoutNode\<close> writes \<^verbatim>\<open>node.x\<close> and \<^verbatim>\<open>node.y\<close> and appends to the two output arrays.
  The model returns the node after the writes together with the two arrays, which are
  threaded as a pair. \<open>layoutChildren\<close> is the \<^verbatim>\<open>forEach\<close> over the children with its
  running \<^verbatim>\<open>currentChildY\<close>; its second argument holds \<^verbatim>\<open>node.x\<close>, \<^verbatim>\<open>node.y\<close>,
  \<^verbatim>\<open>node.width\<close> and \<^verbatim>\<open>node.height\<close> of the parent after the two writes.
\<close>

fun layoutNode :: "CalculatedNode \<Rightarrow> rat \<Rightarrow> rat \<Rightarrow> LayoutNode list \<times> Link list
                     \<Rightarrow> CalculatedNode \<times> LayoutNode list \<times> Link list"
and layoutChildren :: "CalculatedNode list \<Rightarrow> rat \<times> rat \<times> rat \<times> rat \<Rightarrow> rat \<Rightarrow> rat
                     \<Rightarrow> LayoutNode list \<times> Link list
                     \<Rightarrow> CalculatedNode list \<times> LayoutNode list \<times> Link list"
where
  "layoutNode (CalculatedNode ident x0 y0 dat w h depth chn sH cH) x y (flattenList, links) =
     (let centerY = y + sH / 2;
          nodeTop = centerY - h / 2;
          flattenList' = flattenList @
            [\<lparr>ln_id = ident, ln_x = x, ln_y = nodeTop, ln_data = dat,
              ln_width = w, ln_height = h, ln_depth = depth\<rparr>]
      in if length chn > 0
         then (case layoutChildren chn (x, nodeTop, w, h) (x + w + H_GAP) (centerY - cH / 2)
                      (flattenList', links) of
                 (chn', flattenList'', links'') \<Rightarrow>
                   (CalculatedNode ident x nodeTop dat w h depth chn' sH cH,
                    flattenList'', links''))
         else (CalculatedNode ident x nodeTop dat w h depth chn sH cH, flattenList', links))"
| "layoutChildren [] parent childX currentChildY (flattenList, links) = ([], flattenList, links)"
| "layoutChildren (child # rest) (node_x, node_y, node_width, node_height) childX currentChildY acc =
     (case layoutNode child childX currentChildY acc of
        (child', flattenList, links) \<Rightarrow>
          (case layoutChildren rest (node_x, node_y, node_width, node_height) childX
                  (currentChildY + subtreeHeight child + V_GAP)
                  (flattenList,
                   links @
                   [\<lparr>source = \<lparr>px = node_x + node_width, py = node_y + node_height / 2\<rparr>,
                     target = \<lparr>px = childX, py = currentChildY + subtreeHeight child / 2\<rparr>\<rparr>]) of
             (rest', flattenList', links') \<Rightarrow> (child' # rest', flattenList', links')))"

record Layout =
  out_nodes :: "LayoutNode list"
  out_links :: "Link list"
  out_width :: rat
  out_height :: rat

definition calculateTreeLayout :: "nat \<Rightarrow> NodeData obj \<Rightarrow> string \<Rightarrow> Dim obj \<Rightarrow> Layout option" where
  "calculateTreeLayout fuel ns rootId dims =
     (case measureNode fuel rootId 0 \<lparr>dimensions = dims, nodes = ns\<rparr> of
        None \<Rightarrow> None
      | Some rootNode \<Rightarrow>
          (case layoutNode rootNode 0 0 ([], []) of
             (rootNode', layoutNodes, links) \<Rightarrow>
               Some \<lparr>out_nodes = layoutNodes, out_links = links,
                     out_width = foldl (\<lambda>maxX n. max maxX (ln_x n + ln_width n)) 0 layoutNodes,
                     out_height = foldl (\<lambda>maxY n. max maxY (ln_y n + ln_height n)) 0 layoutNodes\<rparr>))"

section \<open>The editor state and its actions (App.tsx)\<close>

text \<open>
  The three \<^verbatim>\<open>useState\<close> cells the actions read and write. Every action is modelled as one
  step from the state of the render in which the handler was created.
\<close>

record AppState =
  st_nodes :: "NodeData obj"
  focusedNodeId :: jsref
  nodeDimensions :: "Dim obj"

definition INITIAL_rootId :: string where
  "INITIAL_rootId = ''root''"

definition INITIAL_STATE :: AppState where
  "INITIAL_STATE =
     \<lparr>st_nodes = [(''root'', Node ''root'' None ''Central Topic'')],
      focusedNodeId = Str ''root'',
      nodeDimensions = []\<rparr>"

text \<open>Reading a property of \<^verbatim>\<open>undefined\<close> throws; nothing else in these actions does.\<close>

datatype error = TypeError

text \<open>\<^verbatim>\<open>{ ...prev[id], text }\<close>\<close>

definition updateNodeText :: "string \<Rightarrow> string \<Rightarrow> AppState \<Rightarrow> AppState" where
  "updateNodeText ident txt s =
     s\<lparr>st_nodes :=
         obj_set ident
           (case obj_get (st_nodes s) ident of
              Some (Node i p t) \<Rightarrow> Node i p txt
            | Some (TextOnly t) \<Rightarrow> TextOnly txt
            | None \<Rightarrow> TextOnly txt)
           (st_nodes s)\<rparr>"

definition handleNodeResize :: "string \<Rightarrow> rat \<Rightarrow> rat \<Rightarrow> AppState \<Rightarrow> AppState" where
  "handleNodeResize ident w h s =
     (case obj_get (nodeDimensions s) ident of
        Some d \<Rightarrow>
          if width d = w \<and> height d = h then s
          else s\<lparr>nodeDimensions := obj_set ident \<lparr>width = w, height = h\<rparr> (nodeDimensions s)\<rparr>
      | None \<Rightarrow> s\<lparr>nodeDimensions := obj_set ident \<lparr>width = w, height = h\<rparr> (nodeDimensions s)\<rparr>)"

text \<open>
  \<^verbatim>\<open>generateId()\<close> draws a random identifier; the identifier drawn is the argument \<open>newId\<close>.
\<close>

definition addChild :: "string \<Rightarrow> string \<Rightarrow> AppState \<Rightarrow> AppState" where
  "addChild parentId newId s =
     s\<lparr>st_nodes := obj_set newId (Node newId (Some parentId) []) (st_nodes s),
       focusedNodeId := Str newId\<rparr>"


text \<open>
  \<open>getDescendants\<close> recurses like \<open>measureNode\<close>; its first argument bounds the recursion
  depth and \<open>None\<close> means that the bound was reached.
\<close>

fun getDescendants :: "nat \<Rightarrow> string \<Rightarrow> NodeData obj \<Rightarrow> string list option" where
  "getDescendants 0 rid allNodes = None"
| "getDescendants (Suc fuel) rid allNodes =
     (let cids = childrenIds allNodes rid
      in case those (map (\<lambda>c. getDescendants fuel c allNodes) cids) of
           None \<Rightarrow> None
         | Some ds \<Rightarrow> Some (cids @ concat ds))"

definition deleteNode :: "nat \<Rightarrow> string \<Rightarrow> AppState \<Rightarrow> (error + AppState) option" where
  "deleteNode fuel ident s =
     (if ident = INITIAL_rootId then Some (Inr s)
      else case obj_get (st_nodes s) ident of
        None \<Rightarrow> Some (Inl TypeError)
      | Some nodeToDelete \<Rightarrow>
          (case getDescendants fuel ident (st_nodes s) of
             None \<Rightarrow> None
           | Some ds \<Rightarrow>
               let idsToDelete = ident # ds;
                   newNodes = foldl (\<lambda>ob dId. obj_delete dId ob) (st_nodes s) idsToDelete;
                   newDims = foldl (\<lambda>ob dId. obj_delete dId ob) (nodeDimensions s) idsToDelete;
                   s' = s\<lparr>st_nodes := newNodes, nodeDimensions := newDims\<rparr>
               in (case parentId_of nodeToDelete of
                     Str p \<Rightarrow>
                       if p \<noteq> [] \<and> obj_get newNodes p \<noteq> None
                       then Some (Inr (s'\<lparr>focusedNodeId := Str p\<rparr>))
                       else Some (Inr s')
                   | _ \<Rightarrow> Some (Inr s'))))"





fun findIndex :: "('a \<Rightarrow> bool) \<Rightarrow> 'a list \<Rightarrow> nat option" where
  "findIndex P [] = None"
| "findIndex P (x # xs) = (if P x then Some 0 else map_option Suc (findIndex P xs))"

section \<open>Structurally valid stores\<close>

text \<open>
  Every entry is a full node stored under its own id, and no key occurs twice (the keys of
  an object are distinct).
\<close>

definition well_keyed :: "NodeData obj \<Rightarrow> bool" where
  "well_keyed ns \<longleftrightarrow>
     distinct (object_keys ns) \<and>
     list_all (\<lambda>(k, n). case n of Node i p t \<Rightarrow> i = k | TextOnly t \<Rightarrow> False) ns"

text \<open>
  \<open>depthOf f ns r k\<close> climbs the parent pointers from \<open>k\<close> for at most \<open>f\<close> lookups and
  returns the number of steps to the root \<open>r\<close>. It fails on a missing node, on a node other
  than \<open>r\<close> whose parent is null, and on \<open>r\<close> itself when it has a parent.
\<close>

fun depthOf :: "nat \<Rightarrow> NodeData obj \<Rightarrow> string \<Rightarrow> string \<Rightarrow> nat option" where
  "depthOf 0 ns r k = None"
| "depthOf (Suc f) ns r k =
     (case obj_get ns k of
        None \<Rightarrow> None
      | Some (TextOnly t) \<Rightarrow> None
      | Some (Node i None t) \<Rightarrow> if k = r then Some 0 else None
      | Some (Node i (Some p) t) \<Rightarrow> if k = r then None else map_option Suc (depthOf f ns r p))"

text \<open>
  A single rooted tree: the root is present, exactly the root has a null parent, and every
  other node reaches the root along parent pointers. A chain of distinct nodes is no longer
  than the store, so the bound \<open>length ns\<close> excludes no tree.
\<close>

definition valid_tree :: "NodeData obj \<Rightarrow> string \<Rightarrow> bool" where
  "valid_tree ns r \<longleftrightarrow>
     well_keyed ns \<and> r \<in> set (object_keys ns) \<and>
     list_all (\<lambda>k. depthOf (length ns) ns r k \<noteq> None) (object_keys ns)"


text \<open>All nodes of a measured tree, parents before children.\<close>

fun subnodes :: "CalculatedNode \<Rightarrow> CalculatedNode list" where
  "subnodes (CalculatedNode ident x y dat w h depth chn sH cH) =
     CalculatedNode ident x y dat w h depth chn sH cH # concat (map subnodes chn)"




text \<open>The size the measure pass uses for a node.\<close>

definition dim_for :: "Dim obj \<Rightarrow> string \<Rightarrow> Dim" where
  "dim_for dims k = (case obj_get dims k of Some d \<Rightarrow> d | None \<Rightarrow> \<lparr>width = 200, height = 50\<rparr>)"



text \<open>A measured tree with the two coordinates of every node reset.\<close>

fun unplaced :: "CalculatedNode \<Rightarrow> CalculatedNode" where
  "unplaced (CalculatedNode ident x y dat w h depth chn sH cH) =
     CalculatedNode ident 0 0 dat w h depth (map unplaced chn) sH cH"



section \<open>Sequences of structural actions\<close>






section \<open>Properties\<close>

subsection \<open>Objects\<close>

lemma obj_get_place:
  "k \<notin> set (object_keys ob) \<Longrightarrow>
   obj_get (obj_place k v ob) k' = (if k' = k then Some v else obj_get ob k')"
  by (induction ob) (auto simp: obj_get_def object_keys_def)

lemma obj_get_set:
  "obj_get (obj_set k v ob) k' = (if k' = k then Some v else obj_get ob k')"
proof (cases "k \<in> set (object_keys ob)")
  case True
  have "map_of (map (\<lambda>(k', v'). if k' = k then (k', v) else (k', v')) ob) k' =
        (if k' = k then (if k \<in> fst ` set ob then Some v else None) else map_of ob k')"
    by (induction ob) (auto simp: rev_image_eqI)
  with True show ?thesis
    by (simp add: obj_set_def obj_get_def object_keys_def)
next
  case False
  then show ?thesis by (simp add: obj_set_def obj_get_place)
qed


lemma mset_place: "mset (obj_place k v ob) = add_mset (k, v) (mset ob)"
  by (induction ob) auto




lemma obj_get_None_iff: "obj_get ob k = None \<longleftrightarrow> k \<notin> set (object_keys ob)"
  by (simp add: obj_get_def object_keys_def map_of_eq_None_iff)

lemma obj_get_Some_key: "obj_get ob k = Some v \<Longrightarrow> k \<in> set (object_keys ob)"
  using obj_get_None_iff [of ob k] by auto


lemma obj_get_SomeI: "distinct (object_keys ob) \<Longrightarrow> (k, v) \<in> set ob \<Longrightarrow> obj_get ob k = Some v"
  by (simp add: obj_get_def object_keys_def)



subsection \<open>those\<close>

lemma those_map_Some_iff:
  "those (map f xs) = Some ys \<longleftrightarrow> list_all2 (\<lambda>x y. f x = Some y) xs ys"
proof (induction xs arbitrary: ys)
  case Nil
  then show ?case by auto
next
  case (Cons x xs)
  then show ?case
    by (cases ys) (auto split: option.splits)
qed

lemma those_map_None_iff:
  "those (map f xs) = None \<longleftrightarrow> (\<exists>x\<in>set xs. f x = None)"
  by (induction xs) (auto split: option.splits)

lemma those_map_cong:
  "(\<And>x. x \<in> set xs \<Longrightarrow> f x = g x) \<Longrightarrow> those (map f xs) = those (map g xs)"
  by (induction xs) (auto split: option.splits)

subsection \<open>Children\<close>

lemma childrenIds_iff:
  "c \<in> set (childrenIds ns p) \<longleftrightarrow> (\<exists>k t. (k, Node c (Some p) t) \<in> set ns)"
proof -
  have "c \<in> set (List.map_filter (child_id p) vs) \<longleftrightarrow> (\<exists>t. Node c (Some p) t \<in> set vs)" for vs
  proof (induction vs)
    case Nil
    then show ?case by simp
  next
    case (Cons v vs)
    then show ?case
      by (cases v) (auto split: option.splits if_splits)
  qed
  then show ?thesis
    by (force simp: childrenIds_def object_values_def)
qed

lemma well_keyed_entry:
  "well_keyed ns \<Longrightarrow> (k, n) \<in> set ns \<Longrightarrow> \<exists>p t. n = Node k p t"
  by (auto simp: well_keyed_def list_all_iff split: NodeData.splits)

lemma child_lookup:
  assumes "well_keyed ns" "c \<in> set (childrenIds ns p)"
  shows "\<exists>t. obj_get ns c = Some (Node c (Some p) t)"
proof -
  from assms(2) obtain k t where kt: "(k, Node c (Some p) t) \<in> set ns"
    by (auto simp: childrenIds_iff)
  with assms(1) have "k = c" by (auto dest: well_keyed_entry)
  with kt assms(1) show ?thesis
    by (auto simp: well_keyed_def intro: obj_get_SomeI)
qed


subsection \<open>Depth\<close>

lemma depthOf_mono:
  "depthOf f ns r k = Some d \<Longrightarrow> f \<le> f' \<Longrightarrow> depthOf f' ns r k = Some d"
proof (induction f arbitrary: f' k d)
  case 0
  then show ?case by simp
next
  case (Suc f)
  then obtain g where g: "f' = Suc g" "f \<le> g" by (cases f') auto
  from Suc.prems(1) show ?case
    unfolding g(1)
    by (auto split: option.splits NodeData.splits if_splits dest: Suc.IH [OF _ g(2)])
qed

lemma depthOf_bound: "depthOf f ns r k = Some d \<Longrightarrow> d < f"
  by (induction f arbitrary: k d) (auto split: option.splits NodeData.splits if_splits)



lemma depthOf_child:
  assumes "obj_get ns c = Some (Node c (Some p) t)" "depthOf f ns r c = Some dc"
  shows "\<exists>dp. depthOf f ns r p = Some dp \<and> dc = Suc dp"
proof -
  from assms(2) obtain g where g: "f = Suc g" by (cases f) auto
  have "depthOf (Suc g) ns r c = (if c = r then None else map_option Suc (depthOf g ns r p))"
    by (simp add: assms(1))
  with assms(2) g obtain dp where dp: "depthOf g ns r p = Some dp" "dc = Suc dp"
    by (cases "depthOf g ns r p") (auto split: if_splits)
  from depthOf_mono [OF dp(1), of f] g have "depthOf f ns r p = Some dp" by simp
  with dp(2) show ?thesis by simp
qed

lemma valid_tree_depth:
  "valid_tree ns r \<Longrightarrow> k \<in> set (object_keys ns) \<Longrightarrow> \<exists>d. depthOf (length ns) ns r k = Some d"
  by (auto simp: valid_tree_def list_all_iff)

lemma valid_child_depth:
  assumes v: "valid_tree ns r" and c: "c \<in> set (childrenIds ns k)"
    and d: "depthOf (length ns) ns r k = Some d"
  shows "depthOf (length ns) ns r c = Some (Suc d)"
proof -
  from v have wk: "well_keyed ns" by (simp add: valid_tree_def)
  from child_lookup [OF wk c] obtain t where t: "obj_get ns c = Some (Node c (Some k) t)" ..
  then have "c \<in> set (object_keys ns)" by (rule obj_get_Some_key)
  with v obtain dc where dc: "depthOf (length ns) ns r c = Some dc"
    by (auto dest: valid_tree_depth)
  from depthOf_child [OF t dc] d show ?thesis using dc by auto
qed

subsection \<open>The measure pass returns on a valid tree\<close>

lemma measureNode_returns_aux:
  assumes v: "valid_tree ns r"
  shows "depthOf (length ns) ns r k = Some d \<Longrightarrow> length ns \<le> fuel + d \<Longrightarrow>
         \<exists>cn. measureNode fuel k dep \<lparr>dimensions = dims, nodes = ns\<rparr> = Some cn"
proof (induction fuel arbitrary: k d dep)
  case 0
  then show ?case using depthOf_bound [of "length ns" ns r k d] by simp
next
  case (Suc fuel)
  have "\<forall>c\<in>set (childrenIds ns k).
          measureNode fuel c (dep + 1) \<lparr>dimensions = dims, nodes = ns\<rparr> \<noteq> None"
  proof
    fix c assume "c \<in> set (childrenIds ns k)"
    from valid_child_depth [OF v this Suc.prems(1)]
    have "depthOf (length ns) ns r c = Some (Suc d)" .
    from Suc.IH [OF this] Suc.prems(2)
    show "measureNode fuel c (dep + 1) \<lparr>dimensions = dims, nodes = ns\<rparr> \<noteq> None" by auto
  qed
  then have "those (map (\<lambda>c. measureNode fuel c (dep + 1) \<lparr>dimensions = dims, nodes = ns\<rparr>)
               (childrenIds ns k)) \<noteq> None"
    by (simp add: those_map_None_iff)
  then show ?case
    by (auto simp: Let_def split: option.splits)
qed

lemma valid_root_depth: "valid_tree ns r \<Longrightarrow> depthOf (length ns) ns r r = Some 0"
proof -
  assume v: "valid_tree ns r"
  then have "r \<in> set (object_keys ns)" by (simp add: valid_tree_def)
  from valid_tree_depth [OF v this] obtain d where d: "depthOf (length ns) ns r r = Some d" ..
  then obtain g where "length ns = Suc g" by (cases "length ns") auto
  with d show ?thesis by (auto split: option.splits NodeData.splits if_splits)
qed

lemma measureNode_returns:
  "valid_tree ns r \<Longrightarrow> length ns \<le> fuel \<Longrightarrow>
   \<exists>cn. measureNode fuel r dep \<lparr>dimensions = dims, nodes = ns\<rparr> = Some cn"
  using measureNode_returns_aux [of ns r r 0 fuel dep dims] valid_root_depth [of ns r] by simp

lemma measureNode_mono:
  "measureNode f k dep ctx = Some cn \<Longrightarrow> f \<le> f' \<Longrightarrow> measureNode f' k dep ctx = Some cn"
proof (induction f arbitrary: f' k dep cn)
  case 0
  then show ?case by simp
next
  case (Suc f)
  then obtain g where g: "f' = Suc g" "f \<le> g" by (cases f') auto
  let ?cs = "childrenIds (nodes ctx) k"
  show ?case
  proof (cases "?cs = []")
    case True
    with Suc.prems(1) show ?thesis unfolding g(1) by (simp add: Let_def)
  next
    case False
    with Suc.prems(1) obtain chn where
      chn: "those (map (\<lambda>c. measureNode f c (dep + 1) ctx) ?cs) = Some chn"
      by (auto simp: Let_def split: option.splits)
    then have "list_all2 (\<lambda>c y. measureNode f c (dep + 1) ctx = Some y) ?cs chn"
      by (simp add: those_map_Some_iff)
    then have "list_all2 (\<lambda>c y. measureNode g c (dep + 1) ctx = Some y) ?cs chn"
      by (rule list_all2_mono) (auto intro: Suc.IH [OF _ g(2)])
    then have "those (map (\<lambda>c. measureNode g c (dep + 1) ctx) ?cs) = Some chn"
      by (simp add: those_map_Some_iff)
    with chn Suc.prems(1) False show ?thesis
      unfolding g(1) by (simp add: Let_def)
  qed
qed

subsection \<open>Root protection\<close>

text \<open>
  C8, as the code has it. \<open>deleteNode\<close> on the root id returns at its first line: the call
  completes normally (no error is raised, there is no \<open>InvalidOperation\<close> in the code) and
  the node store, the dimension table and the focus are the ones it started with. In a
  valid store the node with a null parent is that root, so no node without a parent can be
  deleted.
\<close>

theorem deleteNode_root_noop:
  "deleteNode fuel INITIAL_rootId s = Some (Inr s) \<and>
   (valid_tree (st_nodes s) INITIAL_rootId \<longrightarrow> obj_get (st_nodes s) ident = Some (Node i None t) \<longrightarrow>
      deleteNode fuel ident s = Some (Inr s))"
proof -
  have a: "deleteNode fuel INITIAL_rootId s = Some (Inr s)"
    by (simp add: deleteNode_def)
  have "ident = INITIAL_rootId"
    if v: "valid_tree (st_nodes s) INITIAL_rootId" and g: "obj_get (st_nodes s) ident = Some (Node i None t)"
  proof -
    from g have "ident \<in> set (object_keys (st_nodes s))" by (rule obj_get_Some_key)
    from valid_tree_depth [OF v this] obtain d where
      d: "depthOf (length (st_nodes s)) (st_nodes s) INITIAL_rootId ident = Some d" ..
    then obtain f where "length (st_nodes s) = Suc f" by (cases "length (st_nodes s)") auto
    with d g show ?thesis by (auto split: if_splits)
  qed
  with a show ?thesis by auto
qed

theorem deleteNode_root_noop_witness:
  "valid_tree (st_nodes INITIAL_STATE) INITIAL_rootId \<and>
   obj_get (st_nodes INITIAL_STATE) ''root'' = Some (Node ''root'' None ''Central Topic'') \<and>
   deleteNode 0 ''root'' INITIAL_STATE = Some (Inr INITIAL_STATE)"
proof -
  have v: "valid_tree (st_nodes INITIAL_STATE) INITIAL_rootId"
    by (simp add: valid_tree_def well_keyed_def INITIAL_STATE_def INITIAL_rootId_def
        object_keys_def obj_get_def)
  have g: "obj_get (st_nodes INITIAL_STATE) ''root'' = Some (Node ''root'' None ''Central Topic'')"
    by (simp add: INITIAL_STATE_def obj_get_def)
  from deleteNode_root_noop [of 0 INITIAL_STATE "''root''" "''root''" "''Central Topic''"] v g
  show ?thesis by simp
qed

text \<open>
  C8 as stated fails: deleting the root of the initial state does not fail, it returns
  normally with the state it was given.
\<close>

theorem deleteNode_root_counterexample:
  "deleteNode 0 ''root'' INITIAL_STATE = Some (Inr INITIAL_STATE)"
  by (simp add: deleteNode_def INITIAL_rootId_def)

subsection \<open>Actions on ids that are absent\<close>

text \<open>
  C4, as the code has it. Neither action looks the id up first and neither can fail.
  \<open>addChild\<close> stores an empty node with the given parent under the generated id, focuses
  it and leaves every other entry and the dimension table as they were. \<open>updateNodeText\<close>
  on a stored node replaces its text and nothing else: id, parent, the other entries, the
  order of the keys, the focus and the dimension table stay.
\<close>

theorem insert_update_unchecked:
  "(\<forall>k. obj_get (st_nodes (addChild parentId newId s)) k =
          (if k = newId then Some (Node newId (Some parentId) []) else obj_get (st_nodes s) k)) \<and>
   focusedNodeId (addChild parentId newId s) = Str newId \<and>
   nodeDimensions (addChild parentId newId s) = nodeDimensions s \<and>
   (obj_get (st_nodes s) ident = Some (Node i p t) \<longrightarrow>
      (\<forall>k. obj_get (st_nodes (updateNodeText ident txt s)) k =
            (if k = ident then Some (Node i p txt) else obj_get (st_nodes s) k)) \<and>
      object_keys (st_nodes (updateNodeText ident txt s)) = object_keys (st_nodes s) \<and>
      focusedNodeId (updateNodeText ident txt s) = focusedNodeId s \<and>
      nodeDimensions (updateNodeText ident txt s) = nodeDimensions s)"
proof -
  have keys: "object_keys (obj_set ident v ob) = object_keys ob"
    if "ident \<in> set (object_keys ob)" for v :: NodeData and ob
    using that by (auto simp: obj_set_def object_keys_def split: prod.splits)
  show ?thesis
    by (auto simp: addChild_def updateNodeText_def obj_get_set keys dest: obj_get_Some_key)
qed

theorem insert_update_unchecked_witness:
  "obj_get (st_nodes INITIAL_STATE) ''root'' = Some (Node ''root'' None ''Central Topic'') \<and>
   st_nodes (updateNodeText ''root'' ''Plan'' INITIAL_STATE) = [(''root'', Node ''root'' None ''Plan'')] \<and>
   obj_get (st_nodes (updateNodeText ''root'' ''Plan'' INITIAL_STATE)) ''root'' =
     Some (Node ''root'' None ''Plan'') \<and>
   focusedNodeId (updateNodeText ''root'' ''Plan'' INITIAL_STATE) = Str ''root''"
proof -
  have g: "obj_get (st_nodes INITIAL_STATE) ''root'' = Some (Node ''root'' None ''Central Topic'')"
    by (simp add: INITIAL_STATE_def obj_get_def)
  have e: "st_nodes (updateNodeText ''root'' ''Plan'' INITIAL_STATE) = [(''root'', Node ''root'' None ''Plan'')]"
    by (simp add: updateNodeText_def INITIAL_STATE_def obj_get_def obj_set_def object_keys_def)
  from insert_update_unchecked [of "''root''" "''n1''" INITIAL_STATE "''root''" "''root''" None
      "''Central Topic''" "''Plan''"] g
  have "obj_get (st_nodes (updateNodeText ''root'' ''Plan'' INITIAL_STATE)) ''root'' =
          Some (Node ''root'' None ''Plan'') \<and>
        focusedNodeId (updateNodeText ''root'' ''Plan'' INITIAL_STATE) = focusedNodeId INITIAL_STATE"
    by simp
  with g e show ?thesis by (simp add: INITIAL_STATE_def)
qed

text \<open>
  C4 as stated fails: with an id that is not in the store, \<open>addChild\<close> and
  \<open>updateNodeText\<close> do not fail and both change the store.
\<close>

theorem missing_id_counterexample:
  "st_nodes (addChild ''ghost'' ''n1'' INITIAL_STATE) =
     [(''root'', Node ''root'' None ''Central Topic''), (''n1'', Node ''n1'' (Some ''ghost'') [])] \<and>
   st_nodes (updateNodeText ''ghost'' ''hi'' INITIAL_STATE) =
     [(''root'', Node ''root'' None ''Central Topic''), (''ghost'', TextOnly ''hi'')] \<and>
   st_nodes INITIAL_STATE = [(''root'', Node ''root'' None ''Central Topic'')]"
  by (simp add: addChild_def updateNodeText_def INITIAL_STATE_def obj_get_def obj_set_def
      object_keys_def is_array_index_def)

subsection \<open>What the layout reads\<close>

lemma measureNode_cong:
  assumes "\<And>k. obj_get A k = obj_get B k" "\<And>p. childrenIds A p = childrenIds B p"
  shows "measureNode f k dep \<lparr>dimensions = dims, nodes = A\<rparr> =
         measureNode f k dep \<lparr>dimensions = dims, nodes = B\<rparr>"
proof (induction f arbitrary: k dep)
  case 0
  then show ?case by simp
next
  case (Suc f)
  have "those (map (\<lambda>c. measureNode f c (dep + 1) \<lparr>dimensions = dims, nodes = A\<rparr>) (childrenIds B k)) =
        those (map (\<lambda>c. measureNode f c (dep + 1) \<lparr>dimensions = dims, nodes = B\<rparr>) (childrenIds B k))"
    by (rule those_map_cong) (rule Suc.IH)
  then show ?case by (simp add: assms Let_def)
qed

lemma measureNode_dims_irrelevant:
  assumes "\<And>n. n \<in> set (object_values ns) \<Longrightarrow> id_of n \<noteq> Str ident"
  shows "k \<noteq> ident \<Longrightarrow>
         measureNode f k dep \<lparr>dimensions = obj_set ident d dims, nodes = ns\<rparr> =
         measureNode f k dep \<lparr>dimensions = dims, nodes = ns\<rparr>"
proof (induction f arbitrary: k dep)
  case 0
  then show ?case by simp
next
  case (Suc f)
  have ne: "c \<noteq> ident" if "c \<in> set (childrenIds ns k)" for c
  proof -
    from that obtain k' t where "(k', Node c (Some k) t) \<in> set ns"
      by (auto simp: childrenIds_iff)
    then have "Node c (Some k) t \<in> set (object_values ns)"
      by (force simp: object_values_def)
    from assms [OF this] show ?thesis by simp
  qed
  have "those (map (\<lambda>c. measureNode f c (dep + 1) \<lparr>dimensions = obj_set ident d dims, nodes = ns\<rparr>)
                 (childrenIds ns k)) =
        those (map (\<lambda>c. measureNode f c (dep + 1) \<lparr>dimensions = dims, nodes = ns\<rparr>)
                 (childrenIds ns k))"
    by (rule those_map_cong) (rule Suc.IH, rule ne)
  with Suc.prems show ?case by (simp add: obj_get_set Let_def)
qed

lemma calculateTreeLayout_mono:
  assumes "calculateTreeLayout f ns r dims = Some out" "f \<le> f'"
  shows "calculateTreeLayout f' ns r dims = Some out"
proof -
  from assms(1) obtain cn where cn: "measureNode f r 0 \<lparr>dimensions = dims, nodes = ns\<rparr> = Some cn"
    by (auto simp: calculateTreeLayout_def split: option.splits)
  from measureNode_mono [OF cn assms(2)] cn assms(1) show ?thesis
    by (simp add: calculateTreeLayout_def)
qed

lemma calculateTreeLayout_returns:
  assumes "valid_tree ns r" "length ns \<le> f"
  shows "\<exists>out. calculateTreeLayout f ns r dims = Some out"
proof -
  from measureNode_returns [OF assms, of 0 dims] obtain cn where
    "measureNode f r 0 \<lparr>dimensions = dims, nodes = ns\<rparr> = Some cn" ..
  then show ?thesis
    by (auto simp: calculateTreeLayout_def split: prod.splits)
qed

subsection \<open>Layout as a function of its inputs\<close>

text \<open>
  C9: the layout is a function of the node store, the root id and the dimension table and
  of nothing else. Two runs on the same three inputs that both return give the same
  positioned nodes in the same order, the same connectors and the same bounding box,
  whatever recursion bound each run had; and on a valid tree every run whose bound is at
  least the size of the store returns.
\<close>

theorem layout_deterministic:
  "(calculateTreeLayout f1 ns r dims = Some out1 \<longrightarrow> calculateTreeLayout f2 ns r dims = Some out2 \<longrightarrow>
      out1 = out2) \<and>
   (valid_tree ns r \<longrightarrow> length ns \<le> f1 \<longrightarrow> length ns \<le> f2 \<longrightarrow>
      (\<exists>out. calculateTreeLayout f1 ns r dims = Some out \<and> calculateTreeLayout f2 ns r dims = Some out))"
proof (intro conjI impI)
  assume a: "calculateTreeLayout f1 ns r dims = Some out1" "calculateTreeLayout f2 ns r dims = Some out2"
  from calculateTreeLayout_mono [OF a(1), of "max f1 f2"] calculateTreeLayout_mono [OF a(2), of "max f1 f2"]
  show "out1 = out2" by simp
next
  assume v: "valid_tree ns r" and f: "length ns \<le> f1" "length ns \<le> f2"
  from calculateTreeLayout_returns [OF v order_refl, of dims] obtain out where
    out: "calculateTreeLayout (length ns) ns r dims = Some out" ..
  from calculateTreeLayout_mono [OF out f(1)] calculateTreeLayout_mono [OF out f(2)]
  show "\<exists>out. calculateTreeLayout f1 ns r dims = Some out \<and> calculateTreeLayout f2 ns r dims = Some out"
    by blast
qed

lemmas eval_layout =
  calculateTreeLayout_def obj_get_def childrenIds_def object_values_def object_keys_def
  H_GAP_def V_GAP_def Let_def

theorem layout_deterministic_witness:
  "valid_tree [(''root'', Node ''root'' None ''Central Topic''), (''c'', Node ''c'' (Some ''root'') [])] ''root'' \<and>
   calculateTreeLayout (Suc (Suc 0))
     [(''root'', Node ''root'' None ''Central Topic''), (''c'', Node ''c'' (Some ''root'') [])] ''root'' [] =
   Some \<lparr>out_nodes =
           [\<lparr>ln_id = ''root'', ln_x = 0, ln_y = 0, ln_data = Some (Node ''root'' None ''Central Topic''),
              ln_width = 200, ln_height = 50, ln_depth = 0\<rparr>,
            \<lparr>ln_id = ''c'', ln_x = 300, ln_y = 0, ln_data = Some (Node ''c'' (Some ''root'') []),
              ln_width = 200, ln_height = 50, ln_depth = 1\<rparr>],
         out_links = [\<lparr>source = \<lparr>px = 200, py = 25\<rparr>, target = \<lparr>px = 300, py = 25\<rparr>\<rparr>],
         out_width = 500, out_height = 50\<rparr> \<and>
   calculateTreeLayout (Suc (Suc (Suc 0)))
     [(''root'', Node ''root'' None ''Central Topic''), (''c'', Node ''c'' (Some ''root'') [])] ''root'' [] =
   calculateTreeLayout (Suc (Suc 0))
     [(''root'', Node ''root'' None ''Central Topic''), (''c'', Node ''c'' (Some ''root'') [])] ''root'' []"
proof -
  let ?ns = "[(''root'', Node ''root'' None ''Central Topic''), (''c'', Node ''c'' (Some ''root'') [])]"
  have v: "valid_tree ?ns ''root''"
    by (simp add: valid_tree_def well_keyed_def object_keys_def obj_get_def numeral_2_eq_2)
  have l: "length ?ns \<le> Suc (Suc 0)" "length ?ns \<le> Suc (Suc (Suc 0))" by simp_all
  have e: "calculateTreeLayout (Suc (Suc 0)) ?ns ''root'' [] =
    Some \<lparr>out_nodes =
           [\<lparr>ln_id = ''root'', ln_x = 0, ln_y = 0, ln_data = Some (Node ''root'' None ''Central Topic''),
              ln_width = 200, ln_height = 50, ln_depth = 0\<rparr>,
            \<lparr>ln_id = ''c'', ln_x = 300, ln_y = 0, ln_data = Some (Node ''c'' (Some ''root'') []),
              ln_width = 200, ln_height = 50, ln_depth = 1\<rparr>],
         out_links = [\<lparr>source = \<lparr>px = 200, py = 25\<rparr>, target = \<lparr>px = 300, py = 25\<rparr>\<rparr>],
         out_width = 500, out_height = 50\<rparr>"
    by (simp add: eval_layout)
  from layout_deterministic [of "Suc (Suc 0)" ?ns "''root''" "[]" _ "Suc (Suc (Suc 0))"] v l
  obtain out where o: "calculateTreeLayout (Suc (Suc 0)) ?ns ''root'' [] = Some out"
    "calculateTreeLayout (Suc (Suc (Suc 0))) ?ns ''root'' [] = Some out"
    by blast
  with v e show ?thesis by simp
qed


subsection \<open>Insertion order\<close>

text \<open>
  C1, as the code has it. The children of a node are taken in the order in which
  \<^verbatim>\<open>Object.values\<close> enumerates the store (creation order for ids that are not array
  indices); nothing in the layout sorts by id. The layout is determined by the nodes
  together with the order of the children under each parent: two stores that hold the
  same node under every key and list the children of every parent in the same order get
  the same layout from the same dimension table.
\<close>

theorem layout_sibling_order:
  "(\<forall>k. obj_get A k = obj_get B k) \<Longrightarrow> (\<forall>p. childrenIds A p = childrenIds B p) \<Longrightarrow>
   calculateTreeLayout fuel A r dims = calculateTreeLayout fuel B r dims"
  using measureNode_cong [of A B fuel r 0 dims] by (simp add: calculateTreeLayout_def)

theorem layout_sibling_order_witness:
  "(\<forall>k. obj_get
          [(''root'', Node ''root'' None ''T''), (''a'', Node ''a'' (Some ''root'') []),
           (''a1'', Node ''a1'' (Some ''a'') []), (''b'', Node ''b'' (Some ''root'') [])] k =
        obj_get
          [(''root'', Node ''root'' None ''T''), (''a'', Node ''a'' (Some ''root'') []),
           (''b'', Node ''b'' (Some ''root'') []), (''a1'', Node ''a1'' (Some ''a'') [])] k) \<and>
   (\<forall>p. childrenIds
          [(''root'', Node ''root'' None ''T''), (''a'', Node ''a'' (Some ''root'') []),
           (''a1'', Node ''a1'' (Some ''a'') []), (''b'', Node ''b'' (Some ''root'') [])] p =
        childrenIds
          [(''root'', Node ''root'' None ''T''), (''a'', Node ''a'' (Some ''root'') []),
           (''b'', Node ''b'' (Some ''root'') []), (''a1'', Node ''a1'' (Some ''a'') [])] p) \<and>
   calculateTreeLayout 3
     [(''root'', Node ''root'' None ''T''), (''a'', Node ''a'' (Some ''root'') []),
      (''a1'', Node ''a1'' (Some ''a'') []), (''b'', Node ''b'' (Some ''root'') [])] ''root'' [] =
   calculateTreeLayout 3
     [(''root'', Node ''root'' None ''T''), (''a'', Node ''a'' (Some ''root'') []),
      (''b'', Node ''b'' (Some ''root'') []), (''a1'', Node ''a1'' (Some ''a'') [])] ''root'' []"
proof -
  let ?A = "[(''root'', Node ''root'' None ''T''), (''a'', Node ''a'' (Some ''root'') []),
             (''a1'', Node ''a1'' (Some ''a'') []), (''b'', Node ''b'' (Some ''root'') [])]"
  let ?B = "[(''root'', Node ''root'' None ''T''), (''a'', Node ''a'' (Some ''root'') []),
             (''b'', Node ''b'' (Some ''root'') []), (''a1'', Node ''a1'' (Some ''a'') [])]"
  have g: "\<forall>k. obj_get ?A k = obj_get ?B k"
    by (simp add: obj_get_def)
  have c: "\<forall>p. childrenIds ?A p = childrenIds ?B p"
    by (simp add: childrenIds_def object_values_def)
  from layout_sibling_order [OF g c, of 3 "''root''" "[]"] g c show ?thesis by blast
qed

text \<open>
  C1 as stated fails: the same two children inserted under the root in the two possible
  orders give stores with the same nodes and different layouts.
\<close>

theorem insertion_order_counterexample:
  "st_nodes (addChild ''root'' ''b'' (addChild ''root'' ''a'' INITIAL_STATE)) =
     [(''root'', Node ''root'' None ''Central Topic''), (''a'', Node ''a'' (Some ''root'') []),
      (''b'', Node ''b'' (Some ''root'') [])] \<and>
   st_nodes (addChild ''root'' ''a'' (addChild ''root'' ''b'' INITIAL_STATE)) =
     [(''root'', Node ''root'' None ''Central Topic''), (''b'', Node ''b'' (Some ''root'') []),
      (''a'', Node ''a'' (Some ''root'') [])] \<and>
   map ln_id (out_nodes (the (calculateTreeLayout (Suc (Suc 0))
     [(''root'', Node ''root'' None ''Central Topic''), (''a'', Node ''a'' (Some ''root'') []),
      (''b'', Node ''b'' (Some ''root'') [])] ''root'' []))) = [''root'', ''a'', ''b''] \<and>
   map ln_id (out_nodes (the (calculateTreeLayout (Suc (Suc 0))
     [(''root'', Node ''root'' None ''Central Topic''), (''b'', Node ''b'' (Some ''root'') []),
      (''a'', Node ''a'' (Some ''root'') [])] ''root'' []))) = [''root'', ''b'', ''a''] \<and>
   calculateTreeLayout (Suc (Suc 0))
     [(''root'', Node ''root'' None ''Central Topic''), (''a'', Node ''a'' (Some ''root'') []),
      (''b'', Node ''b'' (Some ''root'') [])] ''root'' [] \<noteq>
   calculateTreeLayout (Suc (Suc 0))
     [(''root'', Node ''root'' None ''Central Topic''), (''b'', Node ''b'' (Some ''root'') []),
      (''a'', Node ''a'' (Some ''root'') [])] ''root'' []"
  by (simp add: eval_layout addChild_def INITIAL_STATE_def obj_set_def is_array_index_def)

subsection \<open>Dimension reports for ids that are absent\<close>

text \<open>
  C10, as the code has it. A dimension report for an id that no stored node has raises no
  error and leaves the node store and the focus as they were, but it is not dropped: the
  dimension table records it, without touching any other entry. The layout of the store
  does not read that entry, so the layout computed after the report is the layout computed
  before it.
\<close>

theorem resize_absent_id:
  "(\<forall>n\<in>set (object_values (st_nodes s)). id_of n \<noteq> Str ident) \<Longrightarrow> ident \<noteq> r \<Longrightarrow>
   st_nodes (handleNodeResize ident w h s) = st_nodes s \<and>
   focusedNodeId (handleNodeResize ident w h s) = focusedNodeId s \<and>
   obj_get (nodeDimensions (handleNodeResize ident w h s)) ident = Some \<lparr>width = w, height = h\<rparr> \<and>
   (\<forall>k. k \<noteq> ident \<longrightarrow>
      obj_get (nodeDimensions (handleNodeResize ident w h s)) k = obj_get (nodeDimensions s) k) \<and>
   calculateTreeLayout fuel (st_nodes (handleNodeResize ident w h s)) r
       (nodeDimensions (handleNodeResize ident w h s)) =
     calculateTreeLayout fuel (st_nodes s) r (nodeDimensions s)"
proof -
  assume a: "\<forall>n\<in>set (object_values (st_nodes s)). id_of n \<noteq> Str ident" and r: "ident \<noteq> r"
  have m: "measureNode fuel r 0 \<lparr>dimensions = obj_set ident d (nodeDimensions s), nodes = st_nodes s\<rparr> =
           measureNode fuel r 0 \<lparr>dimensions = nodeDimensions s, nodes = st_nodes s\<rparr>" for d
    using a r by (intro measureNode_dims_irrelevant) auto
  show ?thesis
    by (cases "obj_get (nodeDimensions s) ident")
       (auto simp: handleNodeResize_def obj_get_set calculateTreeLayout_def m)
qed

theorem resize_absent_id_witness:
  "map id_of (object_values (st_nodes INITIAL_STATE)) = [Str ''root''] \<and>
   st_nodes (handleNodeResize ''ghost'' 120 40 INITIAL_STATE) = st_nodes INITIAL_STATE \<and>
   calculateTreeLayout (Suc 0) (st_nodes (handleNodeResize ''ghost'' 120 40 INITIAL_STATE)) ''root''
       (nodeDimensions (handleNodeResize ''ghost'' 120 40 INITIAL_STATE)) =
     calculateTreeLayout (Suc 0) (st_nodes INITIAL_STATE) ''root'' (nodeDimensions INITIAL_STATE)"
proof -
  have a: "\<forall>n\<in>set (object_values (st_nodes INITIAL_STATE)). id_of n \<noteq> Str ''ghost''"
    by (simp add: INITIAL_STATE_def object_values_def)
  have r: "''ghost'' \<noteq> ''root''" by simp
  have v: "map id_of (object_values (st_nodes INITIAL_STATE)) = [Str ''root'']"
    by (simp add: INITIAL_STATE_def object_values_def)
  from resize_absent_id [OF a r, of 120 40 "Suc 0"] v show ?thesis by blast
qed

text \<open>
  C10 as stated fails: a report for an id that is not in the store is kept in the
  dimension table, so the state is not the state before the report.
\<close>

theorem resize_absent_id_counterexample:
  "obj_get (st_nodes INITIAL_STATE) ''ghost'' = None \<and>
   nodeDimensions INITIAL_STATE = [] \<and>
   nodeDimensions (handleNodeResize ''ghost'' 120 40 INITIAL_STATE) =
     [(''ghost'', \<lparr>width = 120, height = 40\<rparr>)]"
  by (simp add: handleNodeResize_def INITIAL_STATE_def obj_get_def obj_set_def object_keys_def)

subsection \<open>The measure pass\<close>

lemma measureNode_SucE:
  assumes "measureNode (Suc f) k dep ctx = Some cn"
  obtains chn where
    "list_all2 (\<lambda>c y. measureNode f c (dep + 1) ctx = Some y) (childrenIds (nodes ctx) k) chn"
    "cn = CalculatedNode k 0 0 (obj_get (nodes ctx) k)
            (width (dim_for (dimensions ctx) k)) (height (dim_for (dimensions ctx) k)) dep chn
            (if chn = [] then height (dim_for (dimensions ctx) k)
             else max (height (dim_for (dimensions ctx) k))
                    (sum_list (map subtreeHeight chn) + 20 * (of_nat (length chn) - 1)))
            (if chn = [] then 0
             else sum_list (map subtreeHeight chn) + 20 * (of_nat (length chn) - 1))"
proof (cases "childrenIds (nodes ctx) k = []")
  case True
  with assms have "cn = CalculatedNode k 0 0 (obj_get (nodes ctx) k)
            (width (dim_for (dimensions ctx) k)) (height (dim_for (dimensions ctx) k)) dep []
            (height (dim_for (dimensions ctx) k)) 0"
    by (simp add: Let_def dim_for_def)
  with True that [of "[]"] show ?thesis by simp
next
  case False
  with assms obtain chn where
    chn: "those (map (\<lambda>c. measureNode f c (dep + 1) ctx) (childrenIds (nodes ctx) k)) = Some chn"
    by (auto simp: Let_def split: option.splits)
  then have l: "list_all2 (\<lambda>c y. measureNode f c (dep + 1) ctx = Some y) (childrenIds (nodes ctx) k) chn"
    by (simp add: those_map_Some_iff)
  with False have ne: "chn \<noteq> []" by auto
  have fl: "foldl (\<lambda>sum child. sum + subtreeHeight child) a xs = a + sum_list (map subtreeHeight xs)"
    for a and xs :: "CalculatedNode list"
    by (induction xs arbitrary: a) auto
  from ne have "1 \<le> length chn" by (cases chn) auto
  then have "(1::rat) \<le> of_nat (length chn)" by (metis of_nat_1 of_nat_le_iff)
  then have gap: "max 0 (rat_of_nat (length chn) - 1) * V_GAP = 20 * (of_nat (length chn) - 1)"
    by (simp add: V_GAP_def max_def)
  from assms False chn have "cn = CalculatedNode k 0 0 (obj_get (nodes ctx) k)
            (width (dim_for (dimensions ctx) k)) (height (dim_for (dimensions ctx) k)) dep chn
            (max (height (dim_for (dimensions ctx) k))
                    (sum_list (map subtreeHeight chn) + 20 * (of_nat (length chn) - 1)))
            (sum_list (map subtreeHeight chn) + 20 * (of_nat (length chn) - 1))"
    by (simp add: Let_def dim_for_def fl gap)
  with ne l that [of chn] show ?thesis by simp
qed





lemma subnodes_child:
  "c \<in> set (children t) \<Longrightarrow> m \<in> set (subnodes c) \<Longrightarrow> m \<in> set (subnodes t)"
  by (cases t) auto







subsection \<open>The position pass\<close>

lemma unplaced_sel [simp]:
  "cn_id (unplaced t) = cn_id t" "cn_data (unplaced t) = cn_data t"
  "cn_width (unplaced t) = cn_width t" "cn_height (unplaced t) = cn_height t"
  "cn_depth (unplaced t) = cn_depth t" "subtreeHeight (unplaced t) = subtreeHeight t"
  "childrenHeight (unplaced t) = childrenHeight t"
  "children (unplaced t) = map unplaced (children t)"
  by (cases t; simp)+



lemma unplaced_measured:
  "measureNode f k dep ctx = Some cn \<Longrightarrow> unplaced cn = cn"
proof (induction f arbitrary: k dep cn)
  case 0
  then show ?case by simp
next
  case (Suc f)
  from Suc.prems obtain chn where
    l: "list_all2 (\<lambda>c y. measureNode f c (dep + 1) ctx = Some y) (childrenIds (nodes ctx) k) chn"
    and cn: "cn = CalculatedNode k 0 0 (obj_get (nodes ctx) k)
            (width (dim_for (dimensions ctx) k)) (height (dim_for (dimensions ctx) k)) dep chn
            (if chn = [] then height (dim_for (dimensions ctx) k)
             else max (height (dim_for (dimensions ctx) k))
                    (sum_list (map subtreeHeight chn) + 20 * (of_nat (length chn) - 1)))
            (if chn = [] then 0
             else sum_list (map subtreeHeight chn) + 20 * (of_nat (length chn) - 1))"
    by (rule measureNode_SucE)
  have "unplaced y = y" if "y \<in> set chn" for y
  proof -
    from l that obtain c where "measureNode f c (dep + 1) ctx = Some y"
      by (auto simp: list_all2_conv_all_nth in_set_conv_nth)
    then show ?thesis by (rule Suc.IH)
  qed
  then have "map unplaced chn = chn" by (simp add: map_idI)
  then show ?case unfolding cn by simp
qed









subsection \<open>Connectors\<close>



subsection \<open>Coordinates and bounding box\<close>










subsection \<open>Sorting and searching\<close>











lemma findIndex_cong: "(\<And>x. x \<in> set xs \<Longrightarrow> P x = Q x) \<Longrightarrow> findIndex P xs = findIndex Q xs"
  by (induction xs) auto


subsection \<open>Children and siblings over the keys of a well-keyed store\<close>





subsection \<open>Navigation\<close>




subsection \<open>Descendants\<close>








subsection \<open>No chain of parents is longer than the store\<close>




subsection \<open>The shape of a valid store\<close>



subsection \<open>Insertion keeps the tree\<close>




subsection \<open>Deletion keeps the tree\<close>




subsection \<open>Every admissible action keeps the tree\<close>





subsection \<open>Deleting a subtree and the tree invariant\<close>




end
